theory Spec2Isabelle
  imports Main
begin

section \<open>Operators over finite upstreams\<close>

text \<open>
  A \<open>Lazy\<close> wraps a generator function; iterating it with \<open>for await\<close> obtains the
  values the generator yields, one per pull.  For a finite upstream the values that a
  \<open>for await\<close> loop obtains are modelled by a list, in the order they are pulled.  Every
  generator body of the operators below is a \<open>for await\<close> loop over its upstream; the
  loop is the recursion over that list, the \<open>let\<close> variables of the generator are the
  extra arguments of the recursion, and the result is the list of yielded values.
\<close>

subsection \<open>fromArray and toArray\<close>

text \<open>\<open>for (let v of arr) { yield v; }\<close>\<close>

fun fromArray :: "'a list \<Rightarrow> 'a list" where
  "fromArray [] = []"
| "fromArray (v # arr) = v # fromArray arr"

text \<open>\<open>for await (let v of iter) { list.push(v); }  return list;\<close>\<close>

fun toArray_loop :: "'a list \<Rightarrow> 'a list \<Rightarrow> 'a list" where
  "toArray_loop list [] = list"
| "toArray_loop list (v # iter) = toArray_loop (list @ [v]) iter"

text \<open>\<open>const list = [];\<close> followed by the loop; the value is what the promise resolves to.\<close>

definition toArray :: "'a list \<Rightarrow> 'a list" where
  "toArray iter = toArray_loop [] iter"

subsection \<open>skipWhile and skipUntil\<close>

text \<open>
  The predicate is applied for its truthiness only (\<open>if (pred(v))\<close>, \<open>if (!pred(v))\<close>),
  so it is a function into \<open>bool\<close>.  The body of the loop is
  \<^verbatim>\<open>if (hasSkipped) { yield v }
  if (pred(v)) { continue }
  hasSkipped = true
  yield v\<close>
\<close>

fun skipWhile_loop :: "('a \<Rightarrow> bool) \<Rightarrow> bool \<Rightarrow> 'a list \<Rightarrow> 'a list" where
  "skipWhile_loop pred hasSkipped [] = []"
| "skipWhile_loop pred hasSkipped (v # iter) =
     (if hasSkipped then [v] else []) @
     (if pred v then skipWhile_loop pred hasSkipped iter
      else v # skipWhile_loop pred True iter)"

definition skipWhile :: "('a \<Rightarrow> bool) \<Rightarrow> 'a list \<Rightarrow> 'a list" where
  "skipWhile pred iter = skipWhile_loop pred False iter"

text \<open>The same body with \<open>if (!pred(v)) { continue }\<close>.\<close>

fun skipUntil_loop :: "('a \<Rightarrow> bool) \<Rightarrow> bool \<Rightarrow> 'a list \<Rightarrow> 'a list" where
  "skipUntil_loop pred hasSkipped [] = []"
| "skipUntil_loop pred hasSkipped (v # iter) =
     (if hasSkipped then [v] else []) @
     (if \<not> pred v then skipUntil_loop pred hasSkipped iter
      else v # skipUntil_loop pred True iter)"

definition skipUntil :: "('a \<Rightarrow> bool) \<Rightarrow> 'a list \<Rightarrow> 'a list" where
  "skipUntil pred iter = skipUntil_loop pred False iter"

subsection \<open>take\<close>

text \<open>
  \<^verbatim>\<open>let remaining = num;
  for await (let v of iter) {
    if (!remaining) { break; }
    yield v;
    remaining--;
  }\<close>
  \<open>num\<close> is an integer, so \<open>!remaining\<close> holds exactly when \<open>remaining\<close> is \<open>0\<close>.  The
  loop header has already obtained \<open>v\<close> from upstream when the guard is evaluated.  The
  result is the list of yielded values together with the state of the upstream
  iterator when the generator returns: the upstream values that were never pulled.
\<close>

fun take_loop :: "int \<Rightarrow> 'a list \<Rightarrow> 'a list \<times> 'a list" where
  "take_loop remaining [] = ([], [])"
| "take_loop remaining (v # iter) =
     (if remaining = 0 then ([], iter)
      else (case take_loop (remaining - 1) iter of (ys, rest) \<Rightarrow> (v # ys, rest)))"

definition take_lazy :: "int \<Rightarrow> 'a list \<Rightarrow> 'a list" where
  "take_lazy num iter = fst (take_loop num iter)"

text \<open>The number of values pulled from upstream by a \<open>take\<close> that is driven to its end.\<close>

definition take_pulled :: "int \<Rightarrow> 'a list \<Rightarrow> nat" where
  "take_pulled num iter = length iter - length (snd (take_loop num iter))"

subsection \<open>range and merge\<close>

text \<open>
  \<open>merge\<close> calls \<open>next()\<close> on the iterators of its two sequences itself and reads
  \<open>done\<close> and \<open>value\<close> from what it gets, so the iterator protocol is explicit here.  The
  values are JavaScript values: the \<open>value\<close> of the result of an exhausted generator is
  \<open>undefined\<close>, and \<open>+\<close> on \<open>undefined\<close> gives \<open>NaN\<close>.  Numbers are the integers (the
  values of \<open>range\<close> on integer bounds).
\<close>

datatype jsval = Undefined | Number int | NaN




text \<open>An iterator result: \<open>{ value, done }\<close>.\<close>

record node =
  node_value :: jsval
  node_done :: bool

text \<open>
  \<open>iter[Symbol.asyncIterator]()\<close> is \<open>this._gen()\<close>: a generator when the sequence was
  built from a \<open>function*\<close> (\<open>range\<close>, \<open>fromArray\<close>, \<open>empty\<close>), an async generator when it
  was built from an \<open>async function*\<close> (the result of every operator, \<open>fromPromise\<close>,
  \<open>fromEvent\<close>, a \<open>Producer\<close>).  Either holds the values it has not yielded yet.
\<close>

datatype generator = Generator "jsval list" | Async_generator "jsval list"

fun ahead :: "generator \<Rightarrow> jsval list" where
  "ahead (Generator vs) = vs"
| "ahead (Async_generator vs) = vs"

text \<open>
  \<open>next()\<close> on a generator returns the iterator result itself; \<open>next()\<close> on an async
  generator returns a promise of it.
\<close>

datatype next_result = Result node | Promise_of node

fun gen_next :: "generator \<Rightarrow> next_result \<times> generator" where
  "gen_next (Generator []) =
     (Result \<lparr>node_value = Undefined, node_done = True\<rparr>, Generator [])"
| "gen_next (Generator (v # vs)) =
     (Result \<lparr>node_value = v, node_done = False\<rparr>, Generator vs)"
| "gen_next (Async_generator []) =
     (Promise_of \<lparr>node_value = Undefined, node_done = True\<rparr>, Async_generator [])"
| "gen_next (Async_generator (v # vs)) =
     (Promise_of \<lparr>node_value = v, node_done = False\<rparr>, Async_generator vs)"

text \<open>
  \<open>nodeA.done\<close>, as the condition of the loop takes it: the \<open>done\<close> of an iterator
  result; \<open>undefined\<close>, which is falsy, on a promise, which has no such property.
\<close>

fun done_property :: "next_result \<Rightarrow> bool" where
  "done_property (Result n) = node_done n"
| "done_property (Promise_of n) = False"

text \<open>\<open>await nodeA\<close>: the iterator result itself, or the one the promise is fulfilled with.\<close>

fun await :: "next_result \<Rightarrow> node" where
  "await (Result n) = n"
| "await (Promise_of n) = n"

text \<open>
  \<^verbatim>\<open>while (!nodeA.done) {
    const { value: aValue } = await nodeA;
    const { value: bValue } = await nodeB;
    yield fn(aValue, bValue);
    nodeA = genA.next();
    nodeB = genB.next();
  }\<close>
  The loop need not end, so it runs on fuel, one unit for each evaluation of its
  condition.  The result is the list of the values yielded and whether the loop has
  ended (the generator has returned) within the fuel.
\<close>

fun merge_loop ::
  "nat \<Rightarrow> (jsval \<Rightarrow> jsval \<Rightarrow> 'c) \<Rightarrow> next_result \<Rightarrow> generator \<Rightarrow> next_result \<Rightarrow> generator
     \<Rightarrow> 'c list \<times> bool" where
  "merge_loop 0 fn nodeA genA nodeB genB = ([], False)"
| "merge_loop (Suc fuel) fn nodeA genA nodeB genB =
     (if \<not> done_property nodeA then
        (case gen_next genA of (nodeA', genA') \<Rightarrow>
          (case gen_next genB of (nodeB', genB') \<Rightarrow>
            (case merge_loop fuel fn nodeA' genA' nodeB' genB' of (ys, returned) \<Rightarrow>
               (fn (node_value (await nodeA)) (node_value (await nodeB)) # ys, returned))))
      else ([], True))"

text \<open>
  \<^verbatim>\<open>const genA = iterA[Symbol.asyncIterator]();
  const genB = iterB[Symbol.asyncIterator]();
  let nodeA = genA.next();
  let nodeB = genB.next();\<close>
  and then the loop.  The arguments are the two fresh iterators.
\<close>

definition merge ::
  "nat \<Rightarrow> (jsval \<Rightarrow> jsval \<Rightarrow> 'c) \<Rightarrow> generator \<Rightarrow> generator \<Rightarrow> 'c list \<times> bool" where
  "merge fuel fn genA genB =
     (case gen_next genA of (nodeA, genA') \<Rightarrow>
       (case gen_next genB of (nodeB, genB') \<Rightarrow>
          merge_loop fuel fn nodeA genA' nodeB genB'))"

subsection \<open>The Lazy constructor\<close>

text \<open>
  \<^verbatim>\<open>constructor(generator) {
    if (!generator) { throw new Error("You must give Lazy a generator function"); }
    this._gen = generator;
  }\<close>
  The argument is any JavaScript value, or none (\<open>undefined\<close>); the constructor tests
  only whether it is truthy.
\<close>

datatype 'g js_arg =
  Js_undefined | Js_null | Js_boolean bool | Js_number int | Js_NaN | Js_string string
  | Js_object | Js_function 'g

fun truthy :: "'g js_arg \<Rightarrow> bool" where
  "truthy Js_undefined = False"
| "truthy Js_null = False"
| "truthy (Js_boolean b) = b"
| "truthy (Js_number n) = (n \<noteq> 0)"
| "truthy Js_NaN = False"
| "truthy (Js_string s) = (s \<noteq> [])"
| "truthy Js_object = True"
| "truthy (Js_function g) = True"

datatype error = Error string

definition InvalidConstruction :: error where
  "InvalidConstruction = Error ''You must give Lazy a generator function''"

record 'g Lazy =
  Lazy_gen :: "'g js_arg"

definition Lazy_constructor :: "'g js_arg \<Rightarrow> error + 'g Lazy" where
  "Lazy_constructor generator =
     (if \<not> truthy generator then Inl InvalidConstruction
      else Inr \<lparr>Lazy_gen = generator\<rparr>)"

section \<open>Producer\<close>

text \<open>
  The constructor of \<open>Producer\<close> closes over four variables: \<open>prom\<close>, a promise;
  \<open>resolve\<close> and \<open>reject\<close>, the two functions that settle a promise; and the flag
  \<open>iterating\<close>.  Promises are objects with identity, and \<open>resolve\<close> and \<open>reject\<close> may
  belong to a promise other than the one \<open>prom\<close> holds, so the promises live in a store:
  the list of every promise created so far, in creation order.  \<open>prom\<close> is the index of
  the promise the variable holds, \<open>resolve\<close> and \<open>reject\<close> the index of the promise that
  the function in the variable settles.
\<close>

datatype ('v, 'e) promise = Pending | Fulfilled 'v | Rejected 'e

record ('v, 'e) Producer =
  promises :: "('v, 'e) promise list"
  prom :: nat
  resolve :: nat
  reject :: nat
  iterating :: bool

definition state_of :: "('v, 'e) promise list \<Rightarrow> nat \<Rightarrow> ('v, 'e) promise" where
  "state_of ps i = (if i < length ps then ps ! i else Pending)"

text \<open>Resolving or rejecting a promise that is already settled does nothing.\<close>

definition settle ::
  "nat \<Rightarrow> ('v, 'e) promise \<Rightarrow> ('v, 'e) promise list \<Rightarrow> ('v, 'e) promise list" where
  "settle i outcome ps = (if i < length ps \<and> ps ! i = Pending then ps[i := outcome] else ps)"

text \<open>
  \<^verbatim>\<open>let prom = new Promise((res, rej) => { resolve = res; reject = rej; });
  let iterating = true;\<close>
\<close>

definition Producer_constructor :: "('v, 'e) Producer" where
  "Producer_constructor =
     \<lparr>promises = [Pending], prom = 0, resolve = 0, reject = 0, iterating = True\<rparr>"

text \<open>
  \<^verbatim>\<open>this.next = v => {
    resolve(v);
    prom = new Promise((res, rej) => { resolve = res; });
  };\<close>
  The new promise's \<open>rej\<close> is not stored: \<open>reject\<close> keeps the function it had.
\<close>

definition Producer_next :: "'v \<Rightarrow> ('v, 'e) Producer \<Rightarrow> ('v, 'e) Producer" where
  "Producer_next v p =
     (let ps = settle (resolve p) (Fulfilled v) (promises p)
      in p\<lparr>promises := ps @ [Pending], prom := length ps, resolve := length ps\<rparr>)"

text \<open>\<open>this.complete = () => (iterating = false);\<close>\<close>

definition Producer_complete :: "('v, 'e) Producer \<Rightarrow> ('v, 'e) Producer" where
  "Producer_complete p = p\<lparr>iterating := False\<rparr>"

text \<open>\<open>this.error = err => { reject(err); iterating = false; };\<close>\<close>

definition Producer_error :: "'e \<Rightarrow> ('v, 'e) Producer \<Rightarrow> ('v, 'e) Producer" where
  "Producer_error err p =
     p\<lparr>promises := settle (reject p) (Rejected err) (promises p), iterating := False\<rparr>"

subsection \<open>The generator and its consumer\<close>

text \<open>
  The generator is \<open>while (iterating) { yield prom; }\<close> in an async generator, where
  \<open>yield prom\<close> awaits the promise and yields the value it is fulfilled with, or throws
  the error it is rejected with.  The generator is either not started, or awaiting a
  promise inside \<open>yield prom\<close>, or suspended after the yield of a value, or completed.
  An iteration is a producer with one generator over it and what the consuming
  \<open>for await\<close> loop has been given so far: the values received, and the errors thrown
  out of the loop.
\<close>

datatype gen_state = Suspended_start | Awaiting nat | Suspended_yield | Gen_completed

record ('v, 'e) iteration =
  producer :: "('v, 'e) Producer"
  gen :: gen_state
  received :: "'v list"
  thrown :: "'e list"

text \<open>\<open>producer[Symbol.asyncIterator]()\<close>: a fresh generator, not started.\<close>

definition iterate :: "('v, 'e) Producer \<Rightarrow> ('v, 'e) iteration" where
  "iterate p = \<lparr>producer = p, gen = Suspended_start, received = [], thrown = []\<rparr>"

text \<open>
  The head of the \<open>while\<close> loop: \<open>iterating\<close> is tested, and if it holds \<open>prom\<close> is read
  and awaited.
\<close>

definition loop_head :: "('v, 'e) iteration \<Rightarrow> ('v, 'e) iteration" where
  "loop_head s =
     (if iterating (producer s) then s\<lparr>gen := Awaiting (prom (producer s))\<rparr>
      else s\<lparr>gen := Gen_completed\<rparr>)"

text \<open>
  The consumer calls \<open>next()\<close> on the generator: a generator that is not started or is
  suspended after a yield runs to the head of the loop.  (A \<open>for await\<close> loop calls
  \<open>next()\<close> only then.)
\<close>

definition generator_next :: "('v, 'e) iteration \<Rightarrow> ('v, 'e) iteration" where
  "generator_next s =
     (case gen s of
        Suspended_start \<Rightarrow> loop_head s
      | Suspended_yield \<Rightarrow> loop_head s
      | Awaiting i \<Rightarrow> s
      | Gen_completed \<Rightarrow> s)"

text \<open>
  The reaction to the awaited promise: nothing while it is pending; its value is
  yielded to the consumer when it is fulfilled; its error is thrown to the consumer,
  and the generator is completed, when it is rejected.
\<close>

definition generator_resume :: "('v, 'e) iteration \<Rightarrow> ('v, 'e) iteration" where
  "generator_resume s =
     (case gen s of
        Awaiting i \<Rightarrow>
          (case state_of (promises (producer s)) i of
             Pending \<Rightarrow> s
           | Fulfilled v \<Rightarrow> s\<lparr>gen := Suspended_yield, received := received s @ [v]\<rparr>
           | Rejected e \<Rightarrow> s\<lparr>gen := Gen_completed, thrown := thrown s @ [e]\<rparr>)
      | Suspended_start \<Rightarrow> s
      | Suspended_yield \<Rightarrow> s
      | Gen_completed \<Rightarrow> s)"

text \<open>The calls of the party that drives the producer, and the events of an iteration.\<close>

datatype ('v, 'e) call = Emit 'v | Complete | Fail 'e

fun apply_call :: "('v, 'e) call \<Rightarrow> ('v, 'e) Producer \<Rightarrow> ('v, 'e) Producer" where
  "apply_call (Emit v) p = Producer_next v p"
| "apply_call Complete p = Producer_complete p"
| "apply_call (Fail err) p = Producer_error err p"

datatype ('v, 'e) event = Call "('v, 'e) call" | Pull | Resume

fun step :: "('v, 'e) event \<Rightarrow> ('v, 'e) iteration \<Rightarrow> ('v, 'e) iteration" where
  "step (Call c) s = s\<lparr>producer := apply_call c (producer s)\<rparr>"
| "step Pull s = generator_next s"
| "step Resume s = generator_resume s"

definition run :: "('v, 'e) event list \<Rightarrow> ('v, 'e) iteration \<Rightarrow> ('v, 'e) iteration" where
  "run es s = fold step es s"

text \<open>The values emitted by the calls in a list of events.\<close>

definition emitted :: "('v, 'e) event list \<Rightarrow> 'v set" where
  "emitted es = {v. Call (Emit v) \<in> set es}"

subsection \<open>Invariants of an iteration\<close>

text \<open>The generator is completed and the consumer was given nothing.\<close>

definition ended_silently :: "('v, 'e) iteration \<Rightarrow> bool" where
  "ended_silently s = (gen s = Gen_completed \<and> received s = [] \<and> thrown s = [])"

text \<open>
  Every value the consumer has received, and every value of a fulfilled promise that the
  generator awaits or that \<open>prom\<close> holds, is in \<open>S\<close>.
\<close>

definition only_from :: "'v set \<Rightarrow> ('v, 'e) iteration \<Rightarrow> bool" where
  "only_from S s =
     (set (received s) \<subseteq> S \<and>
      (\<forall>v. state_of (promises (producer s)) (prom (producer s)) = Fulfilled v \<longrightarrow> v \<in> S) \<and>
      (\<forall>i v. gen s = Awaiting i \<longrightarrow> state_of (promises (producer s)) i = Fulfilled v
         \<longrightarrow> v \<in> S))"

text \<open>
  No promise is rejected, the promise that \<open>reject\<close> settles is already fulfilled, and no
  error has been thrown to the consumer.
\<close>

definition reject_is_dead :: "('v, 'e) iteration \<Rightarrow> bool" where
  "reject_is_dead s =
     (thrown s = [] \<and>
      (\<forall>i e. state_of (promises (producer s)) i \<noteq> Rejected e) \<and>
      (\<exists>v. state_of (promises (producer s)) (reject (producer s)) = Fulfilled v))"

section \<open>Properties\<close>

lemma toArray_loop_append: "toArray_loop list iter = list @ iter"
  by (induction iter arbitrary: list) simp_all

lemma fromArray_id: "fromArray arr = arr"
  by (induction arr) simp_all

text \<open>
  C7: for every finite list \<open>xs\<close>, \<open>toArray(fromArray(xs))\<close> resolves to a list equal to
  \<open>xs\<close>, element for element, in the original order.
\<close>

theorem toArray_fromArray: "toArray (fromArray xs) = xs"
  by (simp add: toArray_def toArray_loop_append fromArray_id)

lemma skipUntil_loop_negated:
  "skipUntil_loop pred h iter = skipWhile_loop (\<lambda>v. \<not> pred v) h iter"
  by (induction iter arbitrary: h) simp_all

text \<open>
  C10: for every predicate \<open>pred\<close> and every upstream sequence \<open>s\<close>,
  \<open>skipUntil(pred, s)\<close> yields exactly the same values in the same order as
  \<open>skipWhile(v => !pred(v), s)\<close>.
\<close>

theorem skipUntil_is_skipWhile_negated:
  "skipUntil pred s = skipWhile (\<lambda>v. \<not> pred v) s"
  by (simp add: skipUntil_def skipWhile_def skipUntil_loop_negated)

subsection \<open>The skip-prefix operators on the code\<close>

lemma skipWhile_loop_after:
  "skipWhile_loop pred True iter = concat (map (\<lambda>v. if pred v then [v] else [v, v]) iter)"
  by (induction iter) simp_all

lemma skipWhile_loop_before:
  "skipWhile_loop pred False iter =
     (case dropWhile pred iter of [] \<Rightarrow> []
      | v # rest \<Rightarrow> v # concat (map (\<lambda>v. if pred v then [v] else [v, v]) rest))"
  by (induction iter) (simp_all add: skipWhile_loop_after)

text \<open>
  C1: \<open>skipWhile(pred)\<close> (resp. \<open>skipUntil(pred)\<close>) discards the leading run of values for
  which \<open>pred\<close> holds (resp. does not hold) and then yields every value thereafter
  exactly once, in upstream order: the result would be \<open>dropWhile pred\<close> of the
  upstream.  The code yields a value twice when the flag is already set and the
  predicate does not hold (resp. holds) for it: on \<open>[0, 1, 2]\<close> with \<open>v => v === 0\<close> it
  yields \<open>[1, 2, 2]\<close>, not \<open>[1, 2]\<close>.
\<close>

theorem skipWhile_skipUntil_emit_twice:
  "skipWhile (\<lambda>v. v = 0) [0 :: int, 1, 2] = [1, 2, 2] \<and>
   dropWhile (\<lambda>v. v = 0) [0 :: int, 1, 2] = [1, 2] \<and>
   skipUntil (\<lambda>v. v \<noteq> 0) [0 :: int, 1, 2] = [1, 2, 2] \<and>
   dropWhile (\<lambda>v. \<not> v \<noteq> 0) [0 :: int, 1, 2] = [1, 2]"
  by (simp add: skipWhile_def skipUntil_def)

subsection \<open>take\<close>

lemma take_loop_nonneg:
  "0 \<le> n \<Longrightarrow> take_loop n xs = (take (nat n) xs, drop (Suc (nat n)) xs)"
proof (induction xs arbitrary: n)
  case Nil
  then show ?case by simp
next
  case (Cons v iter)
  show ?case
  proof (cases "n = 0")
    case True
    then show ?thesis by simp
  next
    case False
    with Cons.prems have pos: "0 \<le> n - 1" by simp
    from False Cons.prems have "nat n = Suc (nat (n - 1))" by arith
    then show ?thesis using False Cons.IH [OF pos] by simp
  qed
qed

lemma take_loop_negative: "n < 0 \<Longrightarrow> take_loop n xs = (xs, [])"
  by (induction xs arbitrary: n) auto

text \<open>
  C3, as stated: for \<open>n \<ge> 0\<close> and an upstream of length \<open>m\<close>, \<open>take(n)\<close> yields exactly
  \<open>min(n, m)\<close> values and never pulls more than \<open>min(n, m)\<close> values from upstream.  The
  second half fails: \<open>take(0)\<close> on a one-element upstream pulls that element before it
  tests the count.
\<close>

theorem take_pulls_counterexample:
  "take_lazy 0 [7 :: int] = [] \<and> take_pulled 0 [7 :: int] = 1 \<and>
   \<not> take_pulled 0 [7 :: int] \<le> min (nat 0) (length [7 :: int])"
  by (simp add: take_lazy_def take_pulled_def)

text \<open>
  C3, amended: for \<open>n \<ge> 0\<close> and an upstream of length \<open>m\<close>, \<open>take(n)\<close> yields exactly
  the first \<open>min(n, m)\<close> upstream values (nothing for \<open>n = 0\<close>), and, driven to its end,
  pulls \<open>min(n + 1, m)\<close> values from upstream: the count is tested only after the next
  upstream value has been obtained.
\<close>

theorem take_yields_and_pulls:
  "0 \<le> n \<Longrightarrow>
     take_lazy n xs = take (nat n) xs \<and>
     length (take_lazy n xs) = min (nat n) (length xs) \<and>
     take_pulled n xs = min (nat n + 1) (length xs) \<and>
     take_lazy 0 xs = []"
  by (auto simp add: take_lazy_def take_pulled_def take_loop_nonneg)

theorem take_yields_and_pulls_witness:
  "(0 :: int) \<le> 2 \<and> take_lazy 2 [1 :: int, 2, 3, 4] = [1, 2] \<and>
   take_pulled 2 [1 :: int, 2, 3, 4] = 3"
  using take_yields_and_pulls [of 2 "[1 :: int, 2, 3, 4]"] by simp

text \<open>
  C9: for every negative integer \<open>n\<close>, \<open>take(n)\<close> yields every upstream value in order:
  the count never reaches \<open>0\<close>, the loop runs through the whole upstream and the guard
  never breaks it.
\<close>

theorem take_negative_identity:
  "n < 0 \<Longrightarrow> take_lazy n xs = xs \<and> snd (take_loop n xs) = [] \<and> take_pulled n xs = length xs"
  by (simp add: take_lazy_def take_pulled_def take_loop_negative)

theorem take_negative_identity_witness:
  "(- 1 :: int) < 0 \<and> take_lazy (- 1) [1 :: int, 2, 3] = [1, 2, 3]"
  using take_negative_identity [of "- 1" "[1 :: int, 2, 3]"] by simp

subsection \<open>merge\<close>


lemma gen_next_value:
  "node_value (await (fst (gen_next g))) = (case ahead g of [] \<Rightarrow> Undefined | v # vs \<Rightarrow> v)"
  by (cases g rule: gen_next.cases) simp_all

text \<open>One pass of the loop, while the first sequence has a value ahead.\<close>

lemma merge_Suc_step:
  "ahead A \<noteq> [] \<Longrightarrow>
     merge (Suc n) fn A B =
       (fn (hd (ahead A)) (case ahead B of [] \<Rightarrow> Undefined | v # vs \<Rightarrow> v)
          # fst (merge n fn (snd (gen_next A)) (snd (gen_next B))),
        snd (merge n fn (snd (gen_next A)) (snd (gen_next B))))"
  by (cases A rule: gen_next.cases)
     (simp_all add: merge_def split_beta gen_next_value)




text \<open>
  When the iterator of the first sequence is an async generator, \<open>nodeA\<close> is a promise,
  \<open>nodeA.done\<close> is \<open>undefined\<close> and the condition of the loop never fails: every pass
  yields a value, and on no fuel does the loop end.  The loop is written to end when
  the first sequence is exhausted; it misses that here because it reads \<open>done\<close> before
  it awaits \<open>nodeA\<close>.
\<close>

lemma merge_async_never_stops:
  "snd (merge n fn (Async_generator as) B) = False \<and>
   length (fst (merge n fn (Async_generator as) B)) = n"
proof (induction n arbitrary: as B)
  case 0
  then show ?case by (simp add: merge_def split_beta)
next
  case (Suc n)
  show ?case
  proof (cases as)
    case Nil
    have "merge (Suc n) fn (Async_generator []) B =
      (fn Undefined (node_value (await (fst (gen_next B))))
         # fst (merge n fn (Async_generator []) (snd (gen_next B))),
       snd (merge n fn (Async_generator []) (snd (gen_next B))))"
      by (simp add: merge_def split_beta)
    then show ?thesis using Suc.IH [of "[]" "snd (gen_next B)"] Nil by simp
  next
    case (Cons a as')
    then show ?thesis
      using merge_Suc_step [of "Async_generator as" n fn B] Suc.IH [of as' "snd (gen_next B)"]
      by simp
  qed
qed





subsection \<open>Construction\<close>

text \<open>
  C8: constructing a Lazy without a generator factory fails with the construction
  error; constructing it with a factory succeeds; and nothing but the presence
  (truthiness) of the argument is validated: every truthy argument, function or not,
  is stored as it is, and the construction error is the only failure.
\<close>

theorem Lazy_constructor_validation:
  "Lazy_constructor Js_undefined = Inl InvalidConstruction \<and>
   Lazy_constructor Js_null = Inl InvalidConstruction \<and>
   Lazy_constructor (Js_function g) = Inr \<lparr>Lazy_gen = Js_function g\<rparr> \<and>
   Lazy_constructor (Js_number 5) = Inr \<lparr>Lazy_gen = Js_number 5\<rparr> \<and>
   (Lazy_constructor x = Inr \<lparr>Lazy_gen = x\<rparr>) = truthy x \<and>
   (Lazy_constructor x = Inl InvalidConstruction) = (\<not> truthy x)"
  by (simp add: Lazy_constructor_def)

subsection \<open>Producer: completion\<close>

lemma iterating_stays_False:
  "\<not> iterating p \<Longrightarrow> \<not> iterating (fold apply_call cs p)"
proof (induction cs arbitrary: p)
  case Nil
  then show ?case by simp
next
  case (Cons c cs)
  have "\<not> iterating (apply_call c p)"
    using Cons.prems
    by (cases c) (simp_all add: Producer_next_def Producer_complete_def Producer_error_def Let_def)
  then show ?case using Cons.IH by simp
qed

lemma step_ended_silently: "ended_silently s \<Longrightarrow> ended_silently (step ev s)"
  by (cases ev) (simp_all add: ended_silently_def generator_next_def generator_resume_def)

lemma run_ended_silently: "ended_silently s \<Longrightarrow> ended_silently (run es s)"
  unfolding run_def
  by (induction es arbitrary: s) (simp_all add: step_ended_silently)

text \<open>
  C6: after \<open>complete()\<close> the pending future is neither resolved nor rejected (no promise
  changes, and \<open>prom\<close> is the same promise), and a consumer that begins iterating after
  completion, whatever calls \<open>cs\<close> were made on the producer in between, ends at its
  first pull with no value; whatever happens afterwards (\<open>es\<close>: further emits, pulls,
  reactions), it receives no value and no error.
\<close>

theorem complete_then_iterate:
  "promises (Producer_complete p) = promises p \<and>
   prom (Producer_complete p) = prom p \<and>
   gen (generator_next (iterate (fold apply_call cs (Producer_complete p)))) = Gen_completed \<and>
   received (run es (generator_next (iterate (fold apply_call cs (Producer_complete p))))) = [] \<and>
   thrown (run es (generator_next (iterate (fold apply_call cs (Producer_complete p))))) = [] \<and>
   gen (run es (generator_next (iterate (fold apply_call cs (Producer_complete p)))))
     = Gen_completed"
proof -
  let ?p = "fold apply_call cs (Producer_complete p)"
  have "\<not> iterating (Producer_complete p)"
    by (simp add: Producer_complete_def)
  then have off: "\<not> iterating ?p"
    by (rule iterating_stays_False)
  then have first: "ended_silently (generator_next (iterate ?p))"
    by (simp add: ended_silently_def iterate_def loop_head_def generator_next_def)
  then have later: "ended_silently (run es (generator_next (iterate ?p)))"
    by (rule run_ended_silently)
  from first later show ?thesis
    by (simp add: ended_silently_def Producer_complete_def)
qed

subsection \<open>Producer: emits before the first pull\<close>

lemma state_of_settle_fulfilled:
  "state_of (settle r (Fulfilled w) ps @ [Pending]) i = Fulfilled v \<Longrightarrow>
     state_of ps i = Fulfilled v \<or> v = w"
  by (auto simp add: state_of_def settle_def nth_append nth_list_update split: if_splits)

lemma state_of_settle_rejected:
  "state_of (settle r (Rejected e) ps) i = Fulfilled v \<Longrightarrow> state_of ps i = Fulfilled v"
  by (auto simp add: state_of_def settle_def nth_list_update split: if_splits)

lemma state_of_fresh: "state_of (ps @ [Pending]) (length ps) = Pending"
  by (simp add: state_of_def)

lemma only_from_step:
  assumes "only_from S s" and "\<And>v. ev = Call (Emit v) \<Longrightarrow> v \<in> S"
  shows "only_from S (step ev s)"
proof (cases ev)
  case (Call c)
  show ?thesis
  proof (cases c)
    case (Emit w)
    with Call assms(2) have w: "w \<in> S" by simp
    have fresh:
      "state_of (settle (resolve (producer s)) (Fulfilled w) (promises (producer s)) @ [Pending])
         (length (settle (resolve (producer s)) (Fulfilled w) (promises (producer s)))) = Pending"
      by (rule state_of_fresh)
    show ?thesis
      using assms(1) w fresh
      unfolding only_from_def Call Emit
      by (auto simp add: Producer_next_def Let_def dest!: state_of_settle_fulfilled)
  next
    case Complete
    then show ?thesis using assms(1) Call by (simp add: only_from_def Producer_complete_def)
  next
    case (Fail e)
    then show ?thesis using assms(1) Call
      unfolding only_from_def
      by (auto simp add: Producer_error_def dest!: state_of_settle_rejected)
  qed
next
  case Pull
  then show ?thesis using assms(1)
    by (auto simp add: only_from_def loop_head_def generator_next_def split: gen_state.splits)
next
  case Resume
  then show ?thesis using assms(1)
    by (auto simp add: only_from_def generator_resume_def split: gen_state.splits promise.splits)
qed

lemma only_from_run:
  "only_from S s \<Longrightarrow> emitted es \<subseteq> S \<Longrightarrow> only_from S (run es s)"
  unfolding run_def
proof (induction es arbitrary: s)
  case Nil
  then show ?case by simp
next
  case (Cons ev es)
  have "only_from S (step ev s)"
    using Cons.prems by (intro only_from_step) (auto simp add: emitted_def)
  moreover have "emitted es \<subseteq> S"
    using Cons.prems(2) by (auto simp add: emitted_def)
  ultimately show ?case using Cons.IH by simp
qed

lemma two_emits_then_pull:
  "run [Call (Emit a), Call (Emit b), Pull, Resume] (iterate Producer_constructor) =
     \<lparr>producer = \<lparr>promises = [Fulfilled a, Fulfilled b, Pending], prom = 2,
        resolve = 2, reject = 0, iterating = True\<rparr>,
      gen = Awaiting 2, received = [], thrown = []\<rparr>"
  by (simp add: run_def iterate_def Producer_constructor_def Producer_next_def settle_def
      loop_head_def state_of_def generator_next_def generator_resume_def Let_def)

text \<open>
  C5, as stated: \<open>emit(a)\<close> then \<open>emit(b)\<close> before any consumer pull, then consuming once,
  yields \<open>b\<close>.  On the code the consumer receives nothing: \<open>b\<close> was resolved on a promise
  that \<open>emit(b)\<close> itself replaced, and the pull awaits the replacement, which is pending.
\<close>

theorem emit_twice_counterexample:
  "received (run [Call (Emit 1), Call (Emit 2), Pull, Resume]
      (iterate (Producer_constructor :: (int, int) Producer))) = [] \<and>
   received (run [Call (Emit 1), Call (Emit 2), Pull, Resume]
      (iterate (Producer_constructor :: (int, int) Producer))) \<noteq> [2]"
  by (simp add: two_emits_then_pull)

text \<open>
  C5, amended: \<open>emit(a)\<close> then \<open>emit(b)\<close> before any consumer pull, then consuming once,
  yields nothing: the pull awaits the fresh pending future that the last emit
  installed.  Neither \<open>a\<close> nor \<open>b\<close> is ever observed: whatever happens afterwards
  (\<open>es\<close>), the consumer receives only values emitted after its pull, and the first it
  receives is the next value emitted.
\<close>

theorem emits_before_pull_are_lost:
  "received (run [Call (Emit a), Call (Emit b), Pull, Resume] (iterate Producer_constructor))
     = [] \<and>
   gen (run [Call (Emit a), Call (Emit b), Pull, Resume] (iterate Producer_constructor))
     = Awaiting 2 \<and>
   state_of (promises (producer
       (run [Call (Emit a), Call (Emit b), Pull, Resume] (iterate Producer_constructor)))) 2
     = Pending \<and>
   set (received (run es
       (run [Call (Emit a), Call (Emit b), Pull, Resume] (iterate Producer_constructor))))
     \<subseteq> emitted es \<and>
   received (run [Call (Emit c), Resume]
       (run [Call (Emit a), Call (Emit b), Pull, Resume] (iterate Producer_constructor)))
     = [c]"
proof -
  let ?s = "run [Call (Emit a), Call (Emit b), Pull, Resume] (iterate Producer_constructor)"
  note s = two_emits_then_pull [of a b]
  have "only_from (emitted es) ?s"
    unfolding s by (auto simp add: only_from_def state_of_def nth_Cons split: nat.splits)
  then have "only_from (emitted es) (run es ?s)"
    by (rule only_from_run) simp
  then have sub: "set (received (run es ?s)) \<subseteq> emitted es"
    by (simp add: only_from_def)
  have c: "received (run [Call (Emit c), Resume] ?s) = [c]"
    unfolding s
    by (simp add: run_def Producer_next_def settle_def state_of_def generator_resume_def Let_def)
  show ?thesis
    using sub c unfolding s by (simp add: state_of_def)
qed

subsection \<open>Producer: errors\<close>

lemma settle_settled: "state_of ps r = Fulfilled v \<Longrightarrow> settle r x ps = ps"
  by (auto simp add: state_of_def settle_def split: if_splits)

lemma state_of_emit_not_rejected:
  "\<forall>i e. state_of ps i \<noteq> Rejected e \<Longrightarrow>
     state_of (settle r (Fulfilled w) ps @ [Pending]) i \<noteq> Rejected e"
  by (auto simp add: state_of_def settle_def nth_append nth_list_update split: if_splits)

lemma state_of_emit_stable:
  "state_of ps r = Fulfilled v \<Longrightarrow> state_of (settle q (Fulfilled w) ps @ [Pending]) r = Fulfilled v"
  by (auto simp add: state_of_def settle_def nth_append nth_list_update split: if_splits)

lemma reject_is_dead_step: "reject_is_dead s \<Longrightarrow> reject_is_dead (step ev s)"
proof (cases ev)
  case (Call c)
  assume dead: "reject_is_dead s"
  show ?thesis
  proof (cases c)
    case (Emit w)
    then show ?thesis using dead Call
      unfolding reject_is_dead_def
      by (auto simp add: Producer_next_def Let_def state_of_emit_not_rejected
          state_of_emit_stable)
  next
    case Complete
    then show ?thesis using dead Call by (simp add: reject_is_dead_def Producer_complete_def)
  next
    case (Fail e)
    then show ?thesis using dead Call
      unfolding reject_is_dead_def
      by (auto simp add: Producer_error_def settle_settled)
  qed
next
  case Pull
  assume "reject_is_dead s"
  then show ?thesis using Pull
    by (auto simp add: reject_is_dead_def loop_head_def generator_next_def
        split: gen_state.splits)
next
  case Resume
  assume "reject_is_dead s"
  then show ?thesis using Resume
    by (auto simp add: reject_is_dead_def generator_resume_def
        split: gen_state.splits promise.splits)
qed

lemma reject_is_dead_run: "reject_is_dead s \<Longrightarrow> reject_is_dead (run es s)"
  unfolding run_def
  by (induction es arbitrary: s) (simp_all add: reject_is_dead_step)

lemma emit_then_fail:
  "run [Pull, Call (Emit a), Resume, Pull, Call (Fail err), Resume]
      (iterate Producer_constructor) =
     \<lparr>producer = \<lparr>promises = [Fulfilled a, Pending], prom = 1,
        resolve = 1, reject = 0, iterating = False\<rparr>,
      gen = Awaiting 1, received = [a], thrown = []\<rparr>"
  by (simp add: run_def iterate_def Producer_constructor_def Producer_next_def
      Producer_error_def settle_def loop_head_def state_of_def generator_next_def
      generator_resume_def Let_def)

text \<open>Before any emit, \<open>error(err)\<close> does reach the consumer that awaits, once.\<close>

lemma fail_before_any_emit:
  "run [Pull, Call (Fail err), Resume] (iterate Producer_constructor) =
     \<lparr>producer = \<lparr>promises = [Rejected err], prom = 0,
        resolve = 0, reject = 0, iterating = False\<rparr>,
      gen = Gen_completed, received = [], thrown = [err]\<rparr>"
  by (simp add: run_def iterate_def Producer_constructor_def
      Producer_error_def settle_def loop_head_def state_of_def generator_next_def
      generator_resume_def Let_def)

text \<open>
  C4: in the active state, \<open>fail(err)\<close> rejects the current pending future with \<open>err\<close>
  and the active consumer's iteration ends by surfacing exactly \<open>err\<close>, once, also after
  prior emits.  On the code, after one emit that the consumer has received, \<open>error(err)\<close>
  rejects the first promise, which is already fulfilled: the current promise stays
  pending, the consumer stays awaiting it, and whatever happens afterwards (\<open>es\<close>) no
  error is ever thrown to it.
\<close>

theorem fail_after_emit_is_lost:
  "thrown (run [Pull, Call (Emit a), Resume, Pull, Call (Fail err), Resume]
      (iterate Producer_constructor)) = [] \<and>
   received (run [Pull, Call (Emit a), Resume, Pull, Call (Fail err), Resume]
      (iterate Producer_constructor)) = [a] \<and>
   gen (run [Pull, Call (Emit a), Resume, Pull, Call (Fail err), Resume]
      (iterate Producer_constructor)) = Awaiting 1 \<and>
   promises (producer (run [Pull, Call (Emit a), Resume, Pull, Call (Fail err), Resume]
      (iterate Producer_constructor))) = [Fulfilled a, Pending] \<and>
   thrown (run es (run [Pull, Call (Emit a), Resume, Pull, Call (Fail err), Resume]
      (iterate Producer_constructor))) = []"
proof -
  let ?s = "run [Pull, Call (Emit a), Resume, Pull, Call (Fail err), Resume]
      (iterate Producer_constructor)"
  note s = emit_then_fail [of a err]
  have "reject_is_dead ?s"
    unfolding s by (auto simp add: reject_is_dead_def state_of_def nth_Cons split: nat.splits)
  then have "reject_is_dead (run es ?s)"
    by (rule reject_is_dead_run)
  then have "thrown (run es ?s) = []"
    by (simp add: reject_is_dead_def)
  then show ?thesis
    unfolding s by simp
qed

end
